theory Spec2Isabelle
  imports Main
begin

section \<open>Indentation ranges (vs/editor/common/model/indentRanges.ts)\<close>

subsection \<open>Data model\<close>

text \<open>
  JavaScript failures that the function can meet: \<open>TypeError\<close> is a property access on
  \<open>undefined\<close> (the top of an empty \<open>previousRegions\<close> array), \<open>SyntaxError\<close> is
  \<open>new RegExp\<close> rejecting its source, \<open>ModelError\<close> is the text model rejecting a line
  number.
\<close>

datatype error = TypeError | SyntaxError | ModelError

text \<open>
  \<open>class IndentRange\<close>. The constructor's fourth parameter \<open>marker?\<close> is optional:
  \<open>None\<close> is the field left \<open>undefined\<close>.
\<close>

record IndentRange =
  startLineNumber :: int
  endLineNumber :: int
  indent :: int
  marker :: "bool option"

text \<open>\<open>interface FoldMarkers\<close>; \<open>end\<close> is a keyword of Isabelle, hence the prefix.\<close>

record FoldMarkers =
  fm_start :: string
  fm_end :: string
  fm_indent :: "int option"

text \<open>
  The object \<open>new RegExp(`(${markers.start})|(?:${markers.end})`)\<close>, kept as the two
  sources that the template puts together.
\<close>

datatype RegExp = RegExp string string

text \<open>
  The regular-expression engine of the JavaScript host is not part of the repository and is
  a parameter. \<open>compiles\<close> tells whether \<open>new RegExp\<close> accepts the pattern;
  \<open>exec\<close> is \<open>content.match(pattern)\<close>: \<open>None\<close> for \<open>null\<close>, otherwise
  \<open>Some g\<close> where \<open>g\<close> is \<open>m[1]\<close>, the text captured by the start group
  (\<open>None\<close> when the group took no part in the match).
\<close>

record RegExpEngine =
  compiles :: "RegExp \<Rightarrow> bool"
  exec :: "RegExp \<Rightarrow> string \<Rightarrow> string option option"

text \<open>JavaScript truthiness of \<open>m[1]\<close>: \<open>undefined\<close> and the empty string are falsy.\<close>

definition truthy :: "string option \<Rightarrow> bool" where
  "truthy g = (case g of None \<Rightarrow> False | Some s \<Rightarrow> s \<noteq> [])"

text \<open>
  \<open>ITextModel\<close> is imported, not defined here: the three members that \<open>computeRanges\<close>
  calls are a parameter. A model may reject a line number.
\<close>

record ITextModel =
  getLineCount :: int
  getIndentLevel :: "int \<Rightarrow> error + int"
  getLineContent :: "int \<Rightarrow> error + string"

text \<open>
  \<open>interface PreviousRegion { indent; line; marker }\<close>. The fields are prefixed because
  \<open>IndentRange\<close> has fields of the same names.
\<close>

record PreviousRegion =
  p_indent :: int
  p_line :: int
  p_marker :: "RegExp option"

text \<open>
  The state of the loop: the array \<open>previousRegions\<close>, used as a stack whose top (the last
  array element) is the head of the list, and the array \<open>result\<close> in push order.
  \<open>previous\<close> always refers to the top object, so an assignment to one of its fields
  replaces the head.
\<close>

type_synonym loop_state = "PreviousRegion list \<times> IndentRange list"

subsection \<open>IndentRange.deepCloneArr\<close>

text \<open>
  \<open>for (i = 0, len = indentRanges.length; i < len; i++) result[i] = new IndentRange(...)\<close>,
  with three constructor arguments. \<open>i\<close> is always the length of \<open>result\<close>, so the
  assignment appends.
\<close>

function deepCloneArr_loop :: "IndentRange list \<Rightarrow> nat \<Rightarrow> nat \<Rightarrow> IndentRange list \<Rightarrow> IndentRange list" where
  "deepCloneArr_loop indentRanges i len result =
     (if i < len then
        (let r = indentRanges ! i in
         deepCloneArr_loop indentRanges (i + 1) len
           (result @ [\<lparr>startLineNumber = startLineNumber r, endLineNumber = endLineNumber r,
                        indent = indent r, marker = None\<rparr>]))
      else result)"
  by pat_completeness auto
termination
  by (relation "measure (\<lambda>(indentRanges, i, len, result). len - i)") auto

definition deepCloneArr :: "IndentRange list \<Rightarrow> IndentRange list" where
  "deepCloneArr indentRanges = deepCloneArr_loop indentRanges 0 (length indentRanges) []"

subsection \<open>computeRanges\<close>

text \<open>
  \<open>do { previousRegions.pop(); previous = top } while (previous.indent >= 0 && !previous.marker)\<close>.
  \<open>pop\<close> on an empty array does nothing; reading \<open>previous.indent\<close> of an empty stack
  raises.
\<close>

fun discard_until_marker :: "PreviousRegion list \<Rightarrow> error + PreviousRegion list" where
  "discard_until_marker [] = Inl TypeError"
| "discard_until_marker [p] = Inl TypeError"
| "discard_until_marker (p # q # qs) =
     (if p_indent q \<ge> 0 \<and> p_marker q = None then discard_until_marker (q # qs)
      else Inr (q # qs))"

text \<open>
  \<open>do { previousRegions.pop(); previous = top } while (previous.indent > indent)\<close>.
\<close>

fun discard_larger_indent :: "int \<Rightarrow> PreviousRegion list \<Rightarrow> error + PreviousRegion list" where
  "discard_larger_indent i [] = Inl TypeError"
| "discard_larger_indent i [p] = Inl TypeError"
| "discard_larger_indent i (p # q # qs) =
     (if p_indent q > i then discard_larger_indent i (q # qs) else Inr (q # qs))"

text \<open>The branch \<open>if (m[1])\<close>: the line matches the start pattern (source lines 69 to 84).\<close>

definition start_match :: "int \<Rightarrow> int \<Rightarrow> loop_state \<Rightarrow> error + loop_state" where
  "start_match line ind st =
     (case st of (stack, result) \<Rightarrow>
      (case stack of
         [] \<Rightarrow> Inl TypeError
       | p # ps \<Rightarrow>
          (case (if p_indent p \<ge> 0 \<and> p_marker p = None then discard_until_marker stack
                 else Inr stack) of
             Inl e \<Rightarrow> Inl e
           | Inr [] \<Rightarrow> Inl TypeError
           | Inr (q # qs) \<Rightarrow>
               (if p_marker q \<noteq> None then
                  Inr (q\<lparr>p_marker := None, p_indent := ind, p_line := line\<rparr> # qs,
                       result @ [\<lparr>startLineNumber = line, endLineNumber = p_line q,
                                   indent = ind, marker = Some True\<rparr>])
                else Inr (q # qs, result)))))"

text \<open>The branch of the end pattern (source line 86); \<open>previous\<close> is not read.\<close>

definition end_match :: "RegExp \<Rightarrow> int \<Rightarrow> loop_state \<Rightarrow> error + loop_state" where
  "end_match pattern line st =
     (case st of (stack, result) \<Rightarrow>
        Inr (\<lparr>p_indent = - 2, p_line = line, p_marker = Some pattern\<rparr> # stack, result))"

text \<open>The branch of a line that matches no marker (source lines 89 to 107).\<close>

definition plain_line :: "int \<Rightarrow> int \<Rightarrow> int \<Rightarrow> loop_state \<Rightarrow> error + loop_state" where
  "plain_line minimumRangeSize line ind st =
     (case st of (stack, result) \<Rightarrow>
      (case stack of
         [] \<Rightarrow> Inl TypeError
       | p # ps \<Rightarrow>
          (case (if p_indent p > ind then
                   (case discard_larger_indent ind stack of
                      Inl e \<Rightarrow> Inl e
                    | Inr [] \<Rightarrow> Inl TypeError
                    | Inr (q # qs) \<Rightarrow>
                        (let endLineNumber = p_line q - 1 in
                         if endLineNumber - line \<ge> minimumRangeSize then
                           Inr (q # qs, result @ [\<lparr>startLineNumber = line,
                                  endLineNumber = endLineNumber, indent = ind, marker = None\<rparr>])
                         else Inr (q # qs, result)))
                 else Inr (stack, result)) of
             Inl e \<Rightarrow> Inl e
           | Inr ([], result') \<Rightarrow> Inl TypeError
           | Inr (q # qs, result') \<Rightarrow>
               (if p_indent q = ind then Inr (q\<lparr>p_line := line\<rparr> # qs, result')
                else Inr (\<lparr>p_indent = ind, p_line = line, p_marker = None\<rparr> # q # qs, result')))))"

text \<open>
  The condition of source line 67,
  \<open>pattern && (patternIndent === -1 || patternIndent === indent) && (m = content.match(pattern))\<close>:
  the content of the line is read only when the first two conjuncts hold. A match comes
  back with the pattern, which the end branch stores in the region it pushes.
\<close>

definition line_match :: "RegExpEngine \<Rightarrow> ITextModel \<Rightarrow> RegExp option \<Rightarrow> int \<Rightarrow> int \<Rightarrow> int
    \<Rightarrow> error + (RegExp \<times> string option) option" where
  "line_match E model pattern patternIndent line ind =
     (case pattern of
        None \<Rightarrow> Inr None
      | Some pat \<Rightarrow>
          (if patternIndent = - 1 \<or> patternIndent = ind then
             (case getLineContent model line of
                Inl e \<Rightarrow> Inl e
              | Inr content \<Rightarrow>
                  (case exec E pat content of
                     None \<Rightarrow> Inr None
                   | Some g \<Rightarrow> Inr (Some (pat, g))))
           else Inr None))"

text \<open>One iteration of the loop over the lines (source lines 57 to 108).\<close>

definition loop_body :: "RegExpEngine \<Rightarrow> ITextModel \<Rightarrow> bool \<Rightarrow> RegExp option \<Rightarrow> int \<Rightarrow> int \<Rightarrow> int
    \<Rightarrow> loop_state \<Rightarrow> error + loop_state" where
  "loop_body E model offSide pattern patternIndent minimumRangeSize line st =
     (case getIndentLevel model line of
        Inl e \<Rightarrow> Inl e
      | Inr ind \<Rightarrow>
          (if ind = - 1 then
             (if offSide then
                (case st of
                   ([], result) \<Rightarrow> Inl TypeError
                 | (p # ps, result) \<Rightarrow> Inr (p\<lparr>p_line := line\<rparr> # ps, result))
              else Inr st)
           else
             (case line_match E model pattern patternIndent line ind of
                Inl e \<Rightarrow> Inl e
              | Inr (Some (pat, g)) \<Rightarrow>
                  (if truthy g then start_match line ind st
                   else end_match pat line st)
              | Inr None \<Rightarrow> plain_line minimumRangeSize line ind st)))"

text \<open>\<open>for (let line = model.getLineCount(); line > 0; line--)\<close>, entered at \<open>line\<close>.\<close>

function lines_loop :: "RegExpEngine \<Rightarrow> ITextModel \<Rightarrow> bool \<Rightarrow> RegExp option \<Rightarrow> int \<Rightarrow> int \<Rightarrow> int
    \<Rightarrow> loop_state \<Rightarrow> error + loop_state" where
  "lines_loop E model offSide pattern patternIndent minimumRangeSize line st =
     (if line > 0 then
        (case loop_body E model offSide pattern patternIndent minimumRangeSize line st of
           Inl e \<Rightarrow> Inl e
         | Inr st' \<Rightarrow>
             lines_loop E model offSide pattern patternIndent minimumRangeSize (line - 1) st')
      else Inr st)"
  by pat_completeness auto
termination
  by (relation "measure (\<lambda>(E, model, offSide, pattern, patternIndent, minimumRangeSize, line, st).
        nat line)") auto

text \<open>The sentinel pushed before the loop (source line 54).\<close>

definition sentinel :: "ITextModel \<Rightarrow> PreviousRegion" where
  "sentinel model = \<lparr>p_indent = - 1, p_line = getLineCount model + 1, p_marker = None\<rparr>"

text \<open>
  Source lines 46 to 51: the pattern and \<open>patternIndent\<close>.
  \<open>typeof markers.indent === 'number' ? markers.indent : -1\<close>.
\<close>

definition marker_pattern :: "RegExpEngine \<Rightarrow> FoldMarkers option \<Rightarrow> error + (RegExp option \<times> int)" where
  "marker_pattern E markers =
     (case markers of
        None \<Rightarrow> Inr (None, - 1)
      | Some mk \<Rightarrow>
          (if compiles E (RegExp (fm_start mk) (fm_end mk)) then
             Inr (Some (RegExp (fm_start mk) (fm_end mk)),
                  (case fm_indent mk of Some i \<Rightarrow> i | None \<Rightarrow> - 1))
           else Inl SyntaxError))"

text \<open>
  \<open>computeRanges(model, offSide, markers?, minimumRangeSize = 1)\<close>; the default of the
  last parameter is passed by the caller here. \<open>result.reverse()\<close> is \<open>rev\<close>.
\<close>

definition computeRanges :: "RegExpEngine \<Rightarrow> ITextModel \<Rightarrow> bool \<Rightarrow> FoldMarkers option \<Rightarrow> int
    \<Rightarrow> error + IndentRange list" where
  "computeRanges E model offSide markers minimumRangeSize =
     (case marker_pattern E markers of
        Inl e \<Rightarrow> Inl e
      | Inr (pattern, patternIndent) \<Rightarrow>
          (case lines_loop E model offSide pattern patternIndent minimumRangeSize
                  (getLineCount model) ([sentinel model], []) of
             Inl e \<Rightarrow> Inl e
           | Inr (stack, result) \<Rightarrow> Inr (rev result)))"

declare lines_loop.simps [simp del]
declare deepCloneArr_loop.simps [simp del]

subsection \<open>The state after the first iterations\<close>

text \<open>
  The state of the loop after its first \<open>k\<close> iterations, that is after the lines
  \<open>lineCount\<close> down to \<open>lineCount - k + 1\<close>. It follows the same \<open>loop_body\<close> as
  \<open>lines_loop\<close> and is used to speak about the states in the middle of a run.
\<close>

fun loop_prefix :: "RegExpEngine \<Rightarrow> ITextModel \<Rightarrow> bool \<Rightarrow> RegExp option \<Rightarrow> int \<Rightarrow> int \<Rightarrow> nat
    \<Rightarrow> error + loop_state" where
  "loop_prefix E model offSide pattern patternIndent mn 0 = Inr ([sentinel model], [])"
| "loop_prefix E model offSide pattern patternIndent mn (Suc k) =
     (case loop_prefix E model offSide pattern patternIndent mn k of
        Inl e \<Rightarrow> Inl e
      | Inr st \<Rightarrow>
          loop_body E model offSide pattern patternIndent mn (getLineCount model - int k) st)"

subsection \<open>The contract of the text model\<close>

text \<open>
  Modelled from the spec: the interface \<open>ITextModel\<close> is imported by the source file and
  is not among the sources. The spec asks of a model a line count that is not negative, and,
  for each line from 1 to the line count, a content and an indent level that is an integer
  at least 0 or the value -1 of an empty line.
\<close>

definition wf_model :: "ITextModel \<Rightarrow> bool" where
  "wf_model model =
     (0 \<le> getLineCount model \<and>
      (\<forall>line \<in> set [1..getLineCount model].
         (case getIndentLevel model line of Inl e \<Rightarrow> False | Inr i \<Rightarrow> - 1 \<le> i) \<and>
         (case getLineContent model line of Inl e \<Rightarrow> False | Inr s \<Rightarrow> True)))"

subsection \<open>Concrete models and a concrete engine\<close>

text \<open>
  A text model given by the list of its lines, each with its indent level and its content.
  A line number outside the buffer is rejected.
\<close>

definition mkModel :: "(int \<times> string) list \<Rightarrow> ITextModel" where
  "mkModel ls =
     \<lparr>getLineCount = int (length ls),
      getIndentLevel = (\<lambda>l. if 1 \<le> l \<and> l \<le> int (length ls) then Inr (fst (ls ! nat (l - 1)))
                            else Inl ModelError),
      getLineContent = (\<lambda>l. if 1 \<le> l \<and> l \<le> int (length ls) then Inr (snd (ls ! nat (l - 1)))
                            else Inl ModelError)\<rparr>"

text \<open>
  What the host's engine does for the pattern \<open>(start)|(?:end)\<close> when neither source
  holds a metacharacter, as is the case of \<open>#region\<close> and \<open>#endregion\<close>: the match
  is at the leftmost position where one of the two texts occurs, the start text tried first,
  and group 1 is the start text when that alternative matched.
\<close>

fun literal_search :: "string \<Rightarrow> string \<Rightarrow> string \<Rightarrow> string option option" where
  "literal_search s e [] =
     (if s = [] then Some (Some []) else if e = [] then Some None else None)"
| "literal_search s e (c # cs) =
     (if take (length s) (c # cs) = s then Some (Some s)
      else if take (length e) (c # cs) = e then Some None
      else literal_search s e cs)"

definition literal_engine :: RegExpEngine where
  "literal_engine =
     \<lparr>compiles = (\<lambda>p. True),
      exec = (\<lambda>p content. case p of RegExp s e \<Rightarrow> literal_search s e content)\<rparr>"

text \<open>
  The source text that \<open>new RegExp\<close> receives for a pattern: the template
  \<open>`(${markers.start})|(?:${markers.end})`\<close> of source line 49.
\<close>

definition pattern_source :: "RegExp \<Rightarrow> string" where
  "pattern_source p = (case p of RegExp s e \<Rightarrow> ''('' @ s @ '')|(?:'' @ e @ '')'')"

text \<open>
  Every group of a pattern text is closed and every closing parenthesis has its opening one,
  for a text without backslash and without bracket. The host rejects a pattern that fails
  this with a \<open>SyntaxError\<close> (an unterminated group, or an unmatched parenthesis).
\<close>

fun groups_closed :: "nat \<Rightarrow> string \<Rightarrow> bool" where
  "groups_closed d [] = (d = 0)"
| "groups_closed d (c # cs) =
     (if c = CHR ''('' then groups_closed (Suc d) cs
      else if c = CHR '')'' then (case d of 0 \<Rightarrow> False | Suc d' \<Rightarrow> groups_closed d' cs)
      else groups_closed d cs)"

text \<open>
  An engine that rejects the patterns whose groups are not closed, and matches as
  \<open>literal_engine\<close> does.
\<close>

definition group_engine :: RegExpEngine where
  "group_engine =
     \<lparr>compiles = (\<lambda>p. groups_closed 0 (pattern_source p)),
      exec = (\<lambda>p content. case p of RegExp s e \<Rightarrow> literal_search s e content)\<rparr>"

subsection \<open>Invariants of the loop\<close>

text \<open>The bottom of the stack is a region with indent -1 and no marker.\<close>

definition base_ok :: "PreviousRegion list \<Rightarrow> bool" where
  "base_ok stack = (stack \<noteq> [] \<and> p_indent (last stack) = - 1 \<and> p_marker (last stack) = None)"

text \<open>
  Before line \<open>line\<close> is processed, every pending region lies below it and within the
  buffer (the sentinel one past it), and a region that waits for its start marker lies
  within the buffer.
\<close>

definition stack_lines_ok :: "int \<Rightarrow> int \<Rightarrow> PreviousRegion list \<Rightarrow> bool" where
  "stack_lines_ok lc line stack =
     (\<forall>p \<in> set stack. line < p_line p \<and> p_line p \<le> lc + 1 \<and>
        (p_marker p \<noteq> None \<longrightarrow> p_line p \<le> lc))"

text \<open>
  The ranges pushed so far start below \<open>line\<close>, are well formed, pass the size filter
  unless they come from markers, and were pushed with strictly decreasing start lines.
\<close>

definition result_ok :: "int \<Rightarrow> int \<Rightarrow> int \<Rightarrow> IndentRange list \<Rightarrow> bool" where
  "result_ok lc mn line result =
     ((\<forall>r \<in> set result. line < startLineNumber r \<and> 1 \<le> startLineNumber r \<and>
          startLineNumber r \<le> endLineNumber r \<and> endLineNumber r \<le> lc \<and>
          (marker r \<noteq> Some True \<longrightarrow> endLineNumber r - startLineNumber r \<ge> mn)) \<and>
      sorted_wrt (>) (map startLineNumber result))"

definition ranges_inv :: "int \<Rightarrow> int \<Rightarrow> int \<Rightarrow> loop_state \<Rightarrow> bool" where
  "ranges_inv lc mn line st = (stack_lines_ok lc line (fst st) \<and> result_ok lc mn line (snd st))"

subsection \<open>Notions used by the claims\<close>

text \<open>A range that comes from a pair of markers: its \<open>marker\<close> field is \<open>true\<close>.\<close>

definition from_marker :: "IndentRange \<Rightarrow> bool" where
  "from_marker r = (marker r = Some True)"

text \<open>
  \<open>new RegExp\<close> accepts the pattern built from the markers, or there are no markers.
  The spec sets the failure of a malformed marker pattern apart from the computation.
\<close>

definition markers_compile :: "RegExpEngine \<Rightarrow> FoldMarkers option \<Rightarrow> bool" where
  "markers_compile E markers =
     (case markers of
        None \<Rightarrow> True
      | Some mk \<Rightarrow> compiles E (RegExp (fm_start mk) (fm_end mk)))"



section \<open>Properties\<close>

subsection \<open>The two pop loops\<close>

lemma discard_larger_indent_suffix:
  "discard_larger_indent i st = Inr st' \<Longrightarrow>
     \<exists>pre q qs. st = pre @ q # qs \<and> st' = q # qs \<and> pre \<noteq> [] \<and>
        (\<forall>x \<in> set (tl pre). p_indent x > i) \<and> \<not> p_indent q > i"
proof (induction i st rule: discard_larger_indent.induct)
  case (3 i p q qs)
  show ?case
  proof (cases "p_indent q > i")
    case True
    with 3 obtain pre q' qs' where h: "q # qs = pre @ q' # qs'" "st' = q' # qs'" "pre \<noteq> []"
      "\<forall>x \<in> set (tl pre). p_indent x > i" "\<not> p_indent q' > i"
      by auto
    from h(1,3) have "hd pre = q" by (cases pre) auto
    with h True have "\<forall>x \<in> set pre. p_indent x > i" by (cases pre) auto
    with h show ?thesis
      by (intro exI[of _ "p # pre"] exI[of _ q'] exI[of _ qs']) auto
  next
    case False
    with 3 show ?thesis
      by (intro exI[of _ "[p]"] exI[of _ q] exI[of _ qs]) auto
  qed
qed simp_all

lemma discard_until_marker_suffix:
  "discard_until_marker st = Inr st' \<Longrightarrow>
     \<exists>pre q qs. st = pre @ q # qs \<and> st' = q # qs \<and> pre \<noteq> [] \<and>
        \<not> (p_indent q \<ge> 0 \<and> p_marker q = None)"
proof (induction st rule: discard_until_marker.induct)
  case (3 p q qs)
  show ?case
  proof (cases "p_indent q \<ge> 0 \<and> p_marker q = None")
    case True
    with 3 obtain pre q' qs' where h: "q # qs = pre @ q' # qs'" "st' = q' # qs'" "pre \<noteq> []"
      "\<not> (p_indent q' \<ge> 0 \<and> p_marker q' = None)"
      by auto
    then show ?thesis
      by (intro exI[of _ "p # pre"] exI[of _ q'] exI[of _ qs']) auto
  next
    case False
    with 3 show ?thesis
      by (intro exI[of _ "[p]"] exI[of _ q] exI[of _ qs]) auto
  qed
qed simp_all

lemma discard_larger_indent_base:
  "base_ok st \<Longrightarrow> - 1 \<le> i \<Longrightarrow> p_indent (hd st) > i \<Longrightarrow>
     \<exists>st'. discard_larger_indent i st = Inr st' \<and> base_ok st'"
  by (induction i st rule: discard_larger_indent.induct) (auto simp: base_ok_def)

lemma discard_until_marker_base:
  "base_ok st \<Longrightarrow> p_indent (hd st) \<ge> 0 \<Longrightarrow>
     \<exists>st'. discard_until_marker st = Inr st' \<and> base_ok st'"
  by (induction st rule: discard_until_marker.induct) (auto simp: base_ok_def)

subsection \<open>An invariant rule for the loop over the lines\<close>

lemma lines_loop_invariant:
  assumes "lines_loop E model offSide pattern patternIndent mn line st = Inr st'"
    and "P line st"
    and "\<And>l s s'. 0 < l \<Longrightarrow> l \<le> line \<Longrightarrow> P l s \<Longrightarrow>
           loop_body E model offSide pattern patternIndent mn l s = Inr s' \<Longrightarrow> P (l - 1) s'"
  shows "P (min line 0) st'"
  using assms
proof (induction E model offSide pattern patternIndent mn line st rule: lines_loop.induct)
  case (1 E model offSide pattern patternIndent mn line st)
  show ?case
  proof (cases "line > 0")
    case True
    from 1(2) True obtain s1 where b: "loop_body E model offSide pattern patternIndent mn line st = Inr s1"
      and r: "lines_loop E model offSide pattern patternIndent mn (line - 1) s1 = Inr st'"
      by (subst (asm) lines_loop.simps) (auto split: sum.splits)
    have P1: "P (line - 1) s1" using 1(4)[OF True _ 1(3) b] by simp
    have "P (min (line - 1) 0) st'"
    proof (rule 1(1)[OF True b r P1])
      fix l s s' assume "0 < l" "l \<le> line - 1" "P l s"
        "loop_body E model offSide pattern patternIndent mn l s = Inr s'"
      then show "P (l - 1) s'" using 1(4)[of l s s'] by simp
    qed
    moreover from True have "min (line - 1) 0 = min line 0" by arith
    ultimately show ?thesis by simp
  next
    case False
    from 1(2) False have "st' = st" by (subst (asm) lines_loop.simps) simp
    with False 1(3) show ?thesis by (simp add: min_def)
  qed
qed

subsection \<open>The ranges pushed by one iteration\<close>

lemma discard_larger_indent_subset:
  "discard_larger_indent i st = Inr st' \<Longrightarrow> set st' \<subseteq> set st"
  using discard_larger_indent_suffix[of i st st'] by auto

lemma discard_until_marker_subset:
  "discard_until_marker st = Inr st' \<Longrightarrow> set st' \<subseteq> set st"
  using discard_until_marker_suffix[of st st'] by auto

lemma stack_lines_ok_subset:
  "stack_lines_ok lc line st \<Longrightarrow> set st' \<subseteq> set st \<Longrightarrow> stack_lines_ok lc line st'"
  by (auto simp: stack_lines_ok_def)

lemma stack_lines_ok_step:
  "stack_lines_ok lc line st \<Longrightarrow> stack_lines_ok lc (line - 1) st"
  by (fastforce simp: stack_lines_ok_def)

lemma result_ok_step:
  "result_ok lc mn line res \<Longrightarrow> result_ok lc mn (line - 1) res"
  by (fastforce simp: result_ok_def)

lemma result_ok_push:
  assumes "result_ok lc mn line res" "1 \<le> line" "line \<le> e" "e \<le> lc"
    "mk \<noteq> Some True \<Longrightarrow> e - line \<ge> mn"
  shows "result_ok lc mn (line - 1)
           (res @ [\<lparr>startLineNumber = line, endLineNumber = e, indent = i, marker = mk\<rparr>])"
  using assms by (fastforce simp: result_ok_def sorted_wrt_append)

lemma stack_lines_ok_top:
  "stack_lines_ok lc line (q # qs) \<Longrightarrow> line \<le> lc \<Longrightarrow> p_marker q' = None \<or> p_marker q' = p_marker q \<Longrightarrow> p_line q' = line \<Longrightarrow>
     stack_lines_ok lc (line - 1) (q' # qs)"
  by (fastforce simp: stack_lines_ok_def)

lemma stack_lines_ok_push:
  "stack_lines_ok lc line st \<Longrightarrow> line \<le> lc \<Longrightarrow> p_line q' = line \<Longrightarrow>
     stack_lines_ok lc (line - 1) (q' # st)"
  by (fastforce simp: stack_lines_ok_def)

lemma plain_line_inv:
  assumes "0 < l" "l \<le> lc" "ranges_inv lc mn l s" "plain_line mn l ind s = Inr s'"
  shows "ranges_inv lc mn (l - 1) s'"
proof -
  obtain stack res where s: "s = (stack, res)" by (cases s)
  from assms(3) s have so: "stack_lines_ok lc l stack" and ro: "result_ok lc mn l res"
    by (simp_all add: ranges_inv_def)
  from assms(4) s obtain p ps where st: "stack = p # ps"
    by (cases stack) (auto simp: plain_line_def)
  define mid where "mid = (if p_indent p > ind then
                   (case discard_larger_indent ind stack of
                      Inl e \<Rightarrow> Inl e
                    | Inr [] \<Rightarrow> Inl TypeError
                    | Inr (q # qs) \<Rightarrow>
                        (let endLineNumber = p_line q - 1 in
                         if endLineNumber - l \<ge> mn then
                           Inr (q # qs, res @ [\<lparr>startLineNumber = l,
                                  endLineNumber = endLineNumber, indent = ind, marker = None\<rparr>])
                         else Inr (q # qs, res)))
                 else Inr (stack, res))"
  from assms(4) s st obtain q qs res' where m: "mid = Inr (q # qs, res')"
    and s': "s' = (if p_indent q = ind then (q\<lparr>p_line := l\<rparr> # qs, res')
                else (\<lparr>p_indent = ind, p_line = l, p_marker = None\<rparr> # q # qs, res'))"
    unfolding plain_line_def mid_def
    by (simp split: sum.splits list.splits prod.splits if_splits)
  have sub: "set (q # qs) \<subseteq> set stack" and
    r': "res' = res \<or> (res' = res @ [\<lparr>startLineNumber = l, endLineNumber = p_line q - 1, indent = ind, marker = None\<rparr>] \<and> p_line q - 1 - l \<ge> mn)"
    using m discard_larger_indent_subset[of ind stack]
    unfolding mid_def by (auto split: if_splits sum.splits list.splits simp: Let_def)
  from so sub have so': "stack_lines_ok lc l (q # qs)" by (rule stack_lines_ok_subset)
  then have ql: "l < p_line q" "p_line q \<le> lc + 1" by (auto simp: stack_lines_ok_def)
  have ro': "result_ok lc mn (l - 1) res'"
    using r'
  proof
    assume "res' = res" with ro show ?thesis by (simp add: result_ok_step)
  next
    assume a: "res' = res @ [\<lparr>startLineNumber = l, endLineNumber = p_line q - 1, indent = ind, marker = None\<rparr>] \<and> p_line q - 1 - l \<ge> mn"
    have "result_ok lc mn (l - 1) (res @ [\<lparr>startLineNumber = l, endLineNumber = p_line q - 1, indent = ind, marker = None\<rparr>])"
      using ro assms(1) ql a by (intro result_ok_push) auto
    with a show ?thesis by simp
  qed
  have "stack_lines_ok lc (l - 1) (fst s')"
  proof (cases "p_indent q = ind")
    case True
    have "stack_lines_ok lc (l - 1) (q\<lparr>p_line := l\<rparr> # qs)"
      using so' assms(2) by (intro stack_lines_ok_top[of lc l q qs]) auto
    with True s' show ?thesis by simp
  next
    case False
    have "stack_lines_ok lc (l - 1) (\<lparr>p_indent = ind, p_line = l, p_marker = None\<rparr> # q # qs)"
      using so' assms(2) by (intro stack_lines_ok_push) auto
    with False s' show ?thesis by simp
  qed
  with ro' s' show ?thesis by (simp add: ranges_inv_def)
qed

lemma start_match_inv:
  assumes "0 < l" "l \<le> lc" "ranges_inv lc mn l s" "start_match l ind s = Inr s'"
  shows "ranges_inv lc mn (l - 1) s'"
proof -
  obtain stack res where s: "s = (stack, res)" by (cases s)
  from assms(3) s have so: "stack_lines_ok lc l stack" and ro: "result_ok lc mn l res"
    by (simp_all add: ranges_inv_def)
  from assms(4) s obtain p ps where st: "stack = p # ps"
    by (cases stack) (auto simp: start_match_def)
  define mid where "mid = (if p_indent p \<ge> 0 \<and> p_marker p = None then discard_until_marker stack
                 else Inr stack)"
  from assms(4) s st obtain q qs where m: "mid = Inr (q # qs)"
    and s': "s' = (if p_marker q \<noteq> None then
                  (q\<lparr>p_marker := None, p_indent := ind, p_line := l\<rparr> # qs,
                       res @ [\<lparr>startLineNumber = l, endLineNumber = p_line q,
                                   indent = ind, marker = Some True\<rparr>])
                else (q # qs, res))"
    unfolding start_match_def mid_def
    by (simp split: sum.splits list.splits prod.splits if_splits)
  have sub: "set (q # qs) \<subseteq> set stack"
    using m discard_until_marker_subset[of stack]
    unfolding mid_def by (auto split: if_splits)
  from so sub have so': "stack_lines_ok lc l (q # qs)" by (rule stack_lines_ok_subset)
  show ?thesis
  proof (cases "p_marker q \<noteq> None")
    case True
    with so' have ql: "l < p_line q" "p_line q \<le> lc" by (auto simp: stack_lines_ok_def)
    have "result_ok lc mn (l - 1) (res @ [\<lparr>startLineNumber = l, endLineNumber = p_line q, indent = ind, marker = Some True\<rparr>])"
      using ro assms(1) ql by (intro result_ok_push) auto
    moreover have "stack_lines_ok lc (l - 1) (q\<lparr>p_marker := None, p_indent := ind, p_line := l\<rparr> # qs)"
      using so' assms(2) by (intro stack_lines_ok_top[of lc l q qs]) auto
    ultimately show ?thesis using s' True by (simp add: ranges_inv_def)
  next
    case False
    with s' so' ro show ?thesis
      by (simp add: ranges_inv_def stack_lines_ok_step result_ok_step)
  qed
qed

lemma end_match_inv:
  assumes "0 < l" "l \<le> lc" "ranges_inv lc mn l s" "end_match pat l s = Inr s'"
  shows "ranges_inv lc mn (l - 1) s'"
  using assms
  by (cases s) (auto simp: end_match_def ranges_inv_def result_ok_step intro!: stack_lines_ok_push)

lemma loop_body_inv:
  assumes "0 < l" "l \<le> lc" "ranges_inv lc mn l s"
    "loop_body E model offSide pattern patternIndent mn l s = Inr s'"
  shows "ranges_inv lc mn (l - 1) s'"
proof -
  from assms(4) obtain ind where gi: "getIndentLevel model l = Inr ind"
    by (auto simp: loop_body_def split: sum.splits)
  show ?thesis
  proof (cases "ind = - 1")
    case True
    show ?thesis
    proof (cases offSide)
      case True
      with \<open>ind = - 1\<close> gi assms(4) obtain p ps res where "s = (p # ps, res)" "s' = (p\<lparr>p_line := l\<rparr> # ps, res)"
        by (auto simp: loop_body_def split: prod.splits list.splits)
      with assms(2,3) show ?thesis
        by (auto simp: ranges_inv_def result_ok_step intro!: stack_lines_ok_top)
    next
      case False
      with \<open>ind = - 1\<close> gi assms(4) have "s' = s" by (simp add: loop_body_def)
      with assms(3) show ?thesis
        by (simp add: ranges_inv_def result_ok_step stack_lines_ok_step)
    qed
  next
    case False
    with gi assms(4) have
      "(\<exists>pat. start_match l ind s = Inr s' \<or> end_match pat l s = Inr s') \<or> plain_line mn l ind s = Inr s'"
      by (auto simp: loop_body_def split: sum.splits option.splits if_splits)
    with assms(1,2,3) show ?thesis
      using start_match_inv end_match_inv plain_line_inv by blast
  qed
qed

subsection \<open>The bottom of the stack\<close>

lemma wf_model_line:
  assumes "wf_model model" "0 < l" "l \<le> getLineCount model"
  obtains i s where "getIndentLevel model l = Inr i" "- 1 \<le> i" "getLineContent model l = Inr s"
proof -
  from assms have "(case getIndentLevel model l of Inl e \<Rightarrow> False | Inr i \<Rightarrow> - 1 \<le> i) \<and>
         (case getLineContent model l of Inl e \<Rightarrow> False | Inr s \<Rightarrow> True)"
    by (simp add: wf_model_def)
  then show thesis using that by (auto split: sum.splits)
qed

lemma base_ok_top: "base_ok (q # qs) \<Longrightarrow> p_indent q' = - 1 \<and> p_marker q' = None \<or> qs \<noteq> [] \<Longrightarrow> base_ok (q' # qs)"
  by (auto simp: base_ok_def)

lemma base_ok_push: "base_ok st \<Longrightarrow> base_ok (q # st)"
  by (auto simp: base_ok_def)

lemma plain_line_base:
  assumes "base_ok stack" "0 \<le> ind"
  shows "\<exists>stack' res'. plain_line mn l ind (stack, res) = Inr (stack', res') \<and> base_ok stack'"
proof -
  from assms(1) obtain p ps where st: "stack = p # ps" by (cases stack) (auto simp: base_ok_def)
  show ?thesis
  proof (cases "p_indent p > ind")
    case True
    with assms st obtain st' where d: "discard_larger_indent ind stack = Inr st'" and b: "base_ok st'"
      using discard_larger_indent_base[of stack ind] by auto
    then obtain q qs where q: "st' = q # qs" by (cases st') (auto simp: base_ok_def)
    from discard_larger_indent_suffix[OF d] q have le: "\<not> p_indent q > ind" by auto
    show ?thesis
    proof (cases "p_indent q = ind")
      case True
      with assms(2) b q have "qs \<noteq> []" by (auto simp: base_ok_def)
      with b q have "base_ok (q\<lparr>p_line := l\<rparr> # qs)" by (auto intro: base_ok_top)
      with True \<open>p_indent p > ind\<close> d q st show ?thesis
        by (auto simp: plain_line_def Let_def)
    next
      case False
      with \<open>p_indent p > ind\<close> d q st b show ?thesis
        by (auto simp: plain_line_def Let_def intro: base_ok_push)
    qed
  next
    case False
    show ?thesis
    proof (cases "p_indent p = ind")
      case True
      with assms st have "ps \<noteq> []" by (auto simp: base_ok_def)
      with assms(1) st have "base_ok (p\<lparr>p_line := l\<rparr> # ps)" by (auto intro: base_ok_top)
      with True st show ?thesis
        by (auto simp: plain_line_def Let_def)
    next
      case F2: False
      with False assms(1) st show ?thesis
        by (auto simp: plain_line_def Let_def intro: base_ok_push)
    qed
  qed
qed

lemma start_match_base:
  assumes "base_ok stack"
  shows "\<exists>stack' res'. start_match l ind (stack, res) = Inr (stack', res') \<and> base_ok stack'"
proof -
  from assms(1) obtain p ps where st: "stack = p # ps" by (cases stack) (auto simp: base_ok_def)
  define mid where "mid = (if p_indent p \<ge> 0 \<and> p_marker p = None then discard_until_marker stack
                 else Inr stack)"
  have "\<exists>st'. mid = Inr st' \<and> base_ok st'"
    using discard_until_marker_base[of stack] assms st by (auto simp: mid_def)
  then obtain q qs where m: "mid = Inr (q # qs)" and b: "base_ok (q # qs)"
    by (metis base_ok_def list.exhaust)
  have eq: "start_match l ind (stack, res) =
      (case mid of
             Inl e \<Rightarrow> Inl e
           | Inr [] \<Rightarrow> Inl TypeError
           | Inr (q # qs) \<Rightarrow>
               (if p_marker q \<noteq> None then
                  Inr (q\<lparr>p_marker := None, p_indent := ind, p_line := l\<rparr> # qs,
                       res @ [\<lparr>startLineNumber = l, endLineNumber = p_line q,
                                   indent = ind, marker = Some True\<rparr>])
                else Inr (q # qs, res)))"
    by (simp add: start_match_def mid_def st)
  show ?thesis
  proof (cases "p_marker q \<noteq> None")
    case True
    with b have "qs \<noteq> []" by (auto simp: base_ok_def)
    with b have "base_ok (q\<lparr>p_marker := None, p_indent := ind, p_line := l\<rparr> # qs)"
      by (auto intro: base_ok_top)
    with True m show ?thesis
      by (simp add: eq)
  next
    case False
    with m b show ?thesis
      by (simp add: eq)
  qed
qed

lemma loop_body_base:
  assumes "wf_model model" "0 < l" "l \<le> getLineCount model" "base_ok (fst st)"
  shows "\<exists>stack' res'. loop_body E model offSide pattern patternIndent mn l st = Inr (stack', res')
           \<and> base_ok stack'"
proof -
  obtain stack res where s: "st = (stack, res)" by (cases st)
  with assms(4) have b: "base_ok stack" by simp
  then obtain p ps where st: "stack = p # ps" by (cases stack) (auto simp: base_ok_def)
  from assms(1,2,3) obtain i c where gi: "getIndentLevel model l = Inr i" "- 1 \<le> i"
    and gc: "getLineContent model l = Inr c" by (rule wf_model_line)
  show ?thesis
  proof (cases "i = - 1")
    case True
    have "base_ok (p\<lparr>p_line := l\<rparr> # ps)" using b st by (auto simp: base_ok_def)
    with True gi s st b show ?thesis
      by (auto simp: loop_body_def)
  next
    case False
    with gi have i0: "0 \<le> i" by simp
    have "\<exists>lm. line_match E model pattern patternIndent l i = Inr lm"
      by (simp add: line_match_def gc split: option.splits)
    then obtain lm where lm: "line_match E model pattern patternIndent l i = Inr lm" ..
    show ?thesis
    proof (cases lm)
      case None
      with lm False gi s plain_line_base[OF b i0, of mn l res] show ?thesis
        by (auto simp: loop_body_def)
    next
      case (Some pg)
      obtain pat g where pg: "pg = (pat, g)" by (cases pg)
      show ?thesis
      proof (cases "truthy g")
        case True
        with Some pg lm False gi s start_match_base[OF b, of l i res] show ?thesis
          by (auto simp: loop_body_def)
      next
        case F: False
        with Some pg lm False gi s b show ?thesis
          by (auto simp: loop_body_def end_match_def intro: base_ok_push)
      qed
    qed
  qed
qed

lemma lines_loop_total:
  "wf_model model \<Longrightarrow> line \<le> getLineCount model \<Longrightarrow> base_ok (fst st) \<Longrightarrow>
     \<exists>stack res. lines_loop E model offSide pattern patternIndent mn line st = Inr (stack, res)
        \<and> base_ok stack"
proof (induction E model offSide pattern patternIndent mn line st rule: lines_loop.induct)
  case (1 E model offSide pattern patternIndent mn line st)
  show ?case
  proof (cases "line > 0")
    case True
    from loop_body_base[OF 1(2) True 1(3,4)] obtain stack' res' where
      b: "loop_body E model offSide pattern patternIndent mn line st = Inr (stack', res')"
      and ok: "base_ok stack'" by blast
    from 1(1)[OF True b 1(2)] 1(3) ok
    have "\<exists>stack res. lines_loop E model offSide pattern patternIndent mn (line - 1) (stack', res') = Inr (stack, res) \<and> base_ok stack"
      by simp
    with True b show ?thesis
      by (subst lines_loop.simps) simp
  next
    case False
    with 1(4) show ?thesis
      by (subst lines_loop.simps) (cases st, simp)
  qed
qed

lemma loop_prefix_base:
  assumes "wf_model model"
  shows "k \<le> nat (getLineCount model) \<Longrightarrow>
     \<exists>stack res. loop_prefix E model offSide pattern patternIndent mn k = Inr (stack, res) \<and> base_ok stack"
proof (induction k)
  case 0
  show ?case by (simp add: base_ok_def sentinel_def)
next
  case (Suc k)
  then obtain stack res where p: "loop_prefix E model offSide pattern patternIndent mn k = Inr (stack, res)"
    and b: "base_ok stack" by auto
  from Suc(2) have l: "0 < getLineCount model - int k" "getLineCount model - int k \<le> getLineCount model"
    by auto
  from loop_body_base[OF assms l, of "(stack, res)"] b p show ?case by simp
qed

lemma lines_loop_prefix:
  "loop_prefix E model offSide pattern patternIndent mn k = Inr st \<Longrightarrow> k \<le> nat (getLineCount model) \<Longrightarrow>
   lines_loop E model offSide pattern patternIndent mn (getLineCount model - int k) st =
     loop_prefix E model offSide pattern patternIndent mn (nat (getLineCount model))"
proof (induction "nat (getLineCount model) - k" arbitrary: k st)
  case 0
  then have k: "k = nat (getLineCount model)" by simp
  then have "getLineCount model - int k \<le> 0" by simp
  with 0 k show ?case by (subst lines_loop.simps) simp
next
  case (Suc n)
  then have lt: "k < nat (getLineCount model)" by simp
  then have pos: "getLineCount model - int k > 0" by simp
  show ?case
  proof (cases "loop_body E model offSide pattern patternIndent mn (getLineCount model - int k) st")
    case (Inl e)
    have up: "\<And>j. loop_prefix E model offSide pattern patternIndent mn (Suc k + j) = Inl e"
    proof -
      fix j show "loop_prefix E model offSide pattern patternIndent mn (Suc k + j) = Inl e"
        using Suc(3) Inl by (induction j) auto
    qed
    from lt have "nat (getLineCount model) = Suc k + (nat (getLineCount model) - Suc k)" by simp
    with up have "loop_prefix E model offSide pattern patternIndent mn (nat (getLineCount model)) = Inl e"
      by metis
    with Inl pos show ?thesis by (subst lines_loop.simps) simp
  next
    case (Inr st')
    with Suc(3) have p: "loop_prefix E model offSide pattern patternIndent mn (Suc k) = Inr st'" by simp
    from Suc(2) have n: "n = nat (getLineCount model) - Suc k" by simp
    from lt have "Suc k \<le> nat (getLineCount model)" by simp
    have e: "getLineCount model - int (Suc k) = getLineCount model - int k - 1" by simp
    from Suc(1)[OF n p \<open>Suc k \<le> nat (getLineCount model)\<close>] have r: "lines_loop E model offSide pattern patternIndent mn (getLineCount model - int k - 1) st' =
        loop_prefix E model offSide pattern patternIndent mn (nat (getLineCount model))"
      unfolding e .
    show ?thesis
      by (subst lines_loop.simps) (simp only: pos Inr r if_True sum.case)
  qed
qed

subsection \<open>The result of a run\<close>

lemma computeRanges_result_ok:
  assumes "computeRanges E model offSide markers mn = Inr rs"
  shows "result_ok (getLineCount model) mn (min (getLineCount model) 0) (rev rs)"
proof -
  from assms obtain pattern patternIndent stack result where
    l: "lines_loop E model offSide pattern patternIndent mn (getLineCount model)
          ([sentinel model], []) = Inr (stack, result)"
    and rs: "rs = rev result"
    by (auto simp: computeRanges_def split: sum.splits prod.splits)
  have init: "ranges_inv (getLineCount model) mn (getLineCount model) ([sentinel model], [])"
    by (simp add: ranges_inv_def stack_lines_ok_def result_ok_def sentinel_def)
  have "ranges_inv (getLineCount model) mn (min (getLineCount model) 0) (stack, result)"
    by (rule lines_loop_invariant[OF l, where P = "ranges_inv (getLineCount model) mn", OF init])
       (rule loop_body_inv)
  with rs show ?thesis by (simp add: ranges_inv_def)
qed

subsection \<open>The size filter leaves the stack and the marker ranges alone\<close>

lemma plain_line_size_indep:
  assumes "plain_line mn l ind (stack, res) = Inr (stack', res')"
  shows "\<exists>res2'. plain_line mn' l ind (stack, res2) = Inr (stack', res2') \<and>
           filter from_marker res2' = filter from_marker res2 \<and>
           filter from_marker res' = filter from_marker res"
proof -
  from assms obtain p ps where st: "stack = p # ps"
    by (cases stack) (auto simp: plain_line_def)
  show ?thesis
  proof (cases "p_indent p > ind")
    case True
    with assms st obtain q qs where d: "discard_larger_indent ind (p # ps) = Inr (q # qs)"
      by (auto simp: plain_line_def split: sum.splits list.splits)
    with True assms st show ?thesis
      by (auto simp: plain_line_def Let_def from_marker_def split: if_splits)
  next
    case False
    with assms st show ?thesis
      by (auto simp: plain_line_def Let_def from_marker_def split: if_splits)
  qed
qed

lemma start_match_result_indep:
  assumes "start_match l ind (stack, res) = Inr (stack', res')"
  shows "\<exists>new. res' = res @ new \<and> start_match l ind (stack, res2) = Inr (stack', res2 @ new)"
proof -
  from assms obtain p ps where st: "stack = p # ps"
    by (cases stack) (auto simp: start_match_def)
  define mid where "mid = (if p_indent p \<ge> 0 \<and> p_marker p = None then discard_until_marker stack
                 else Inr stack)"
  have eq: "\<And>r. start_match l ind (stack, r) =
      (case mid of
             Inl e \<Rightarrow> Inl e
           | Inr [] \<Rightarrow> Inl TypeError
           | Inr (q # qs) \<Rightarrow>
               (if p_marker q \<noteq> None then
                  Inr (q\<lparr>p_marker := None, p_indent := ind, p_line := l\<rparr> # qs,
                       r @ [\<lparr>startLineNumber = l, endLineNumber = p_line q,
                                   indent = ind, marker = Some True\<rparr>])
                else Inr (q # qs, r)))"
    by (simp add: start_match_def mid_def st)
  from assms obtain q qs where m: "mid = Inr (q # qs)"
    by (auto simp: eq split: sum.splits list.splits)
  show ?thesis
  proof (cases "p_marker q \<noteq> None")
    case True
    with assms m show ?thesis
      by (intro exI[of _ "[\<lparr>startLineNumber = l, endLineNumber = p_line q,
                                   indent = ind, marker = Some True\<rparr>]"]) (auto simp: eq)
  next
    case False
    with assms m show ?thesis
      by (intro exI[of _ "[]"]) (auto simp: eq)
  qed
qed

lemma loop_body_size_indep:
  assumes "loop_body E model offSide pattern patternIndent mn l (stack, res) = Inr (stack', res')"
    and "filter from_marker res2 = filter from_marker res"
  shows "\<exists>res2'. loop_body E model offSide pattern patternIndent mn' l (stack, res2) = Inr (stack', res2')
           \<and> filter from_marker res2' = filter from_marker res'"
proof -
  from assms(1) obtain ind where gi: "getIndentLevel model l = Inr ind"
    by (auto simp: loop_body_def split: sum.splits)
  show ?thesis
  proof (cases "ind = - 1")
    case True
    with gi assms show ?thesis
      by (auto simp: loop_body_def split: list.splits if_splits)
  next
    case False
    from assms(1) gi False obtain lm where lm: "line_match E model pattern patternIndent l ind = Inr lm"
      by (auto simp: loop_body_def split: sum.splits)
    show ?thesis
    proof (cases lm)
      case None
      with assms(1) gi False lm have "plain_line mn l ind (stack, res) = Inr (stack', res')"
        by (simp add: loop_body_def)
      from plain_line_size_indep[OF this, of mn' res2] assms(2) None gi False lm show ?thesis
        by (auto simp: loop_body_def)
    next
      case (Some pg)
      obtain pat g where pg: "pg = (pat, g)" by (cases pg)
      show ?thesis
      proof (cases "truthy g")
        case True
        with assms(1) gi False lm Some pg have "start_match l ind (stack, res) = Inr (stack', res')"
          by (simp add: loop_body_def)
        from start_match_result_indep[OF this, of res2] assms(2) True Some pg gi False lm show ?thesis
          by (auto simp: loop_body_def)
      next
        case F: False
        with assms gi False lm Some pg show ?thesis
          by (auto simp: loop_body_def end_match_def)
      qed
    qed
  qed
qed

lemma lines_loop_size_indep:
  "lines_loop E model offSide pattern patternIndent mn line st = Inr (stack', res') \<Longrightarrow>
   fst st2 = fst st \<Longrightarrow> filter from_marker (snd st2) = filter from_marker (snd st) \<Longrightarrow>
   \<exists>res2'. lines_loop E model offSide pattern patternIndent mn' line st2 = Inr (stack', res2') \<and>
      filter from_marker res2' = filter from_marker res'"
proof (induction E model offSide pattern patternIndent mn line st arbitrary: st2
        rule: lines_loop.induct)
  case (1 E model offSide pattern patternIndent mn line st)
  obtain stack res where st: "st = (stack, res)" by (cases st)
  with 1(3) obtain res2 where st2: "st2 = (stack, res2)" by (cases st2) auto
  show ?case
  proof (cases "line > 0")
    case True
    from 1(2) True obtain s1 where b: "loop_body E model offSide pattern patternIndent mn line st = Inr s1"
      and r: "lines_loop E model offSide pattern patternIndent mn (line - 1) s1 = Inr (stack', res')"
      by (subst (asm) lines_loop.simps) (auto split: sum.splits)
    obtain stack1 res1 where s1: "s1 = (stack1, res1)" by (cases s1)
    from b st s1 1(4) st2 obtain res21 where
      b2: "loop_body E model offSide pattern patternIndent mn' line st2 = Inr (stack1, res21)"
      and f: "filter from_marker res21 = filter from_marker res1"
      using loop_body_size_indep[of E model offSide pattern patternIndent mn line stack res stack1 res1 res2 mn']
      by auto
    from 1(1)[OF True b r, of "(stack1, res21)"] s1 f obtain res2' where
      "lines_loop E model offSide pattern patternIndent mn' (line - 1) (stack1, res21) = Inr (stack', res2')"
      "filter from_marker res2' = filter from_marker res'" by auto
    with True b2 show ?thesis
      by (subst lines_loop.simps) simp
  next
    case False
    with 1(2) have "st = (stack', res')" by (subst (asm) lines_loop.simps) simp
    with False st st2 1(4) show ?thesis
      by (subst lines_loop.simps) simp
  qed
qed

subsection \<open>Cloning is a map\<close>

lemma deepCloneArr_loop_eq:
  "i \<le> len \<Longrightarrow> len = length indentRanges \<Longrightarrow>
   deepCloneArr_loop indentRanges i len result =
     result @ map (\<lambda>r. \<lparr>startLineNumber = startLineNumber r, endLineNumber = endLineNumber r,
                          indent = indent r, marker = None\<rparr>) (drop i indentRanges)"
proof (induction indentRanges i len result rule: deepCloneArr_loop.induct)
  case (1 indentRanges i len result)
  show ?case
  proof (cases "i < len")
    case True
    with 1(3) have d: "drop i indentRanges = indentRanges ! i # drop (Suc i) indentRanges"
      by (simp add: Cons_nth_drop_Suc)
    from 1(1)[OF True refl] True 1(3) d show ?thesis
      by (subst deepCloneArr_loop.simps) (simp add: Let_def)
  next
    case False
    with 1(2,3) show ?thesis
      by (subst deepCloneArr_loop.simps) simp
  qed
qed

lemma deepCloneArr_map:
  "deepCloneArr indentRanges =
     map (\<lambda>r. \<lparr>startLineNumber = startLineNumber r, endLineNumber = endLineNumber r,
                 indent = indent r, marker = None\<rparr>) indentRanges"
  by (simp add: deepCloneArr_def deepCloneArr_loop_eq)

subsection \<open>An off-side blank line counts as a line of the block below it\<close>








section \<open>The claims\<close>

subsection \<open>The pop loop of a plain line\<close>

text \<open>
  C1, as stated: when a plain line meets a top region of larger indent, each popped region
  whose span \<open>poppedLine - 1 - line\<close> reaches \<open>minimumRangeSize\<close> would give a range
  from \<open>line\<close> to \<open>poppedLine - 1\<close> with the popped indent. On the three lines with
  indents 0, 2, 1 the stack before line 1 holds the regions of indent 2 (line 2) and of
  indent 1 (line 3) above the sentinel. Both are popped at line 1. The region of indent 1
  has span 1, which reaches the minimum size 1, yet no range from 1 to 2 with indent 1 is
  pushed: the only range pushed is from 1 to 3 with indent 0.
\<close>

theorem plain_line_pop_counterexample:
  "loop_prefix literal_engine (mkModel [(0, ''a''), (2, ''b''), (1, ''c'')]) False None (- 1) 1 2 =
     Inr ([\<lparr>p_indent = 2, p_line = 2, p_marker = None\<rparr>,
           \<lparr>p_indent = 1, p_line = 3, p_marker = None\<rparr>,
           \<lparr>p_indent = - 1, p_line = 4, p_marker = None\<rparr>], []) \<and>
   line_match literal_engine (mkModel [(0, ''a''), (2, ''b''), (1, ''c'')]) None (- 1) 1 0 = Inr None \<and>
   getIndentLevel (mkModel [(0, ''a''), (2, ''b''), (1, ''c'')]) 1 = Inr 0 \<and>
   loop_body literal_engine (mkModel [(0, ''a''), (2, ''b''), (1, ''c'')]) False None (- 1) 1 1
     ([\<lparr>p_indent = 2, p_line = 2, p_marker = None\<rparr>,
       \<lparr>p_indent = 1, p_line = 3, p_marker = None\<rparr>,
       \<lparr>p_indent = - 1, p_line = 4, p_marker = None\<rparr>], []) =
     Inr ([\<lparr>p_indent = 0, p_line = 1, p_marker = None\<rparr>,
           \<lparr>p_indent = - 1, p_line = 4, p_marker = None\<rparr>],
          [\<lparr>startLineNumber = 1, endLineNumber = 3, indent = 0, marker = None\<rparr>]) \<and>
   p_indent \<lparr>p_indent = 1, p_line = 3, p_marker = None\<rparr> > 0 \<and>
   p_line \<lparr>p_indent = 1, p_line = 3, p_marker = None\<rparr> - 1 - 1 \<ge> (1::int) \<and>
   \<lparr>startLineNumber = 1, endLineNumber = p_line \<lparr>p_indent = 1, p_line = 3, p_marker = None\<rparr> - 1,
     indent = p_indent \<lparr>p_indent = 1, p_line = 3, p_marker = None\<rparr>, marker = None\<rparr>
     \<notin> set [\<lparr>startLineNumber = 1, endLineNumber = 3, indent = 0, marker = None\<rparr>] \<and>
   \<lparr>startLineNumber = 1, endLineNumber = p_line \<lparr>p_indent = 1, p_line = 3, p_marker = None\<rparr> - 1,
     indent = p_indent \<lparr>p_indent = 1, p_line = 3, p_marker = None\<rparr>, marker = Some True\<rparr>
     \<notin> set [\<lparr>startLineNumber = 1, endLineNumber = 3, indent = 0, marker = None\<rparr>]"
  by code_simp

text \<open>
  C1, amended: when a plain line (no marker match) is processed and the top of the stack has
  an indent that exceeds the indent of the line, the regions on top are popped until the
  top's indent no longer exceeds it. The loop as a whole pushes at most one range: with
  \<open>q\<close> the region left on top, the range from \<open>line\<close> to \<open>p_line q - 1\<close> with the
  indent of the current line is pushed when \<open>p_line q - 1 - line\<close> reaches
  \<open>minimumRangeSize\<close>, and nothing is pushed otherwise. Then \<open>q\<close> takes the line when
  its indent is that of the line, and a new region is pushed above it otherwise.
\<close>

theorem plain_line_pop:
  assumes "getIndentLevel model line = Inr ind" and "ind \<noteq> - 1"
    and "line_match E model pattern patternIndent line ind = Inr None"
    and "p_indent p > ind"
    and "loop_body E model offSide pattern patternIndent minimumRangeSize line (p # ps, result) =
           Inr (stack', result')"
  shows "\<exists>popped q rest.
           p # ps = popped @ q # rest \<and> popped \<noteq> [] \<and>
           (\<forall>x \<in> set popped. p_indent x > ind) \<and> p_indent q \<le> ind \<and>
           result' =
             (if p_line q - 1 - line \<ge> minimumRangeSize
              then result @ [\<lparr>startLineNumber = line, endLineNumber = p_line q - 1,
                               indent = ind, marker = None\<rparr>]
              else result) \<and>
           stack' =
             (if p_indent q = ind then q\<lparr>p_line := line\<rparr> # rest
              else \<lparr>p_indent = ind, p_line = line, p_marker = None\<rparr> # q # rest)"
proof -
  from assms(1,2,3,5) have pl:
    "plain_line minimumRangeSize line ind (p # ps, result) = Inr (stack', result')"
    by (simp add: loop_body_def)
  with assms(4) obtain st1 where d: "discard_larger_indent ind (p # ps) = Inr st1"
    by (auto simp: plain_line_def split: sum.splits)
  from discard_larger_indent_suffix[OF d] obtain pre q qs where
    h: "p # ps = pre @ q # qs" "st1 = q # qs" "pre \<noteq> []"
       "\<forall>x \<in> set (tl pre). p_indent x > ind" "\<not> p_indent q > ind"
    by blast
  from h(1,3) have "hd pre = p" by (cases pre) auto
  with h(3,4) assms(4) have all: "\<forall>x \<in> set pre. p_indent x > ind" by (cases pre) auto
  from pl assms(4) d h(2) have
    "result' =
             (if p_line q - 1 - line \<ge> minimumRangeSize
              then result @ [\<lparr>startLineNumber = line, endLineNumber = p_line q - 1,
                               indent = ind, marker = None\<rparr>]
              else result)"
    "stack' =
             (if p_indent q = ind then q\<lparr>p_line := line\<rparr> # qs
              else \<lparr>p_indent = ind, p_line = line, p_marker = None\<rparr> # q # qs)"
    by (auto simp: plain_line_def Let_def split: if_splits)
  with h all show ?thesis
    by (intro exI[of _ pre] exI[of _ q] exI[of _ qs]) auto
qed

theorem plain_line_pop_witness:
  "getIndentLevel (mkModel [(0, ''a''), (2, ''b''), (1, ''c'')]) 1 = Inr 0 \<and> (0::int) \<noteq> - 1 \<and>
   line_match literal_engine (mkModel [(0, ''a''), (2, ''b''), (1, ''c'')]) None (- 1) 1 0 = Inr None \<and>
   p_indent \<lparr>p_indent = 2, p_line = 2, p_marker = None\<rparr> > 0 \<and>
   loop_body literal_engine (mkModel [(0, ''a''), (2, ''b''), (1, ''c'')]) False None (- 1) 1 1
     ([\<lparr>p_indent = 2, p_line = 2, p_marker = None\<rparr>,
       \<lparr>p_indent = 1, p_line = 3, p_marker = None\<rparr>,
       \<lparr>p_indent = - 1, p_line = 4, p_marker = None\<rparr>], []) =
     Inr ([\<lparr>p_indent = 0, p_line = 1, p_marker = None\<rparr>,
           \<lparr>p_indent = - 1, p_line = 4, p_marker = None\<rparr>],
          [\<lparr>startLineNumber = 1, endLineNumber = 3, indent = 0, marker = None\<rparr>]) \<and>
   (\<exists>popped q rest.
      [\<lparr>p_indent = 2, p_line = 2, p_marker = None\<rparr>,
       \<lparr>p_indent = 1, p_line = 3, p_marker = None\<rparr>,
       \<lparr>p_indent = - 1, p_line = 4, p_marker = None\<rparr>] = popped @ q # rest \<and> popped \<noteq> [] \<and>
      (\<forall>x \<in> set popped. p_indent x > 0) \<and> p_indent q \<le> 0 \<and>
      [\<lparr>startLineNumber = 1, endLineNumber = 3, indent = 0, marker = None\<rparr>] =
        (if p_line q - 1 - 1 \<ge> 1
         then [] @ [\<lparr>startLineNumber = 1, endLineNumber = p_line q - 1, indent = 0, marker = None\<rparr>]
         else []) \<and>
      [\<lparr>p_indent = 0, p_line = 1, p_marker = None\<rparr>,
       \<lparr>p_indent = - 1, p_line = 4, p_marker = None\<rparr>] =
        (if p_indent q = 0 then q\<lparr>p_line := 1\<rparr> # rest
         else \<lparr>p_indent = 0, p_line = 1, p_marker = None\<rparr> # q # rest))"
proof -
  have g: "getIndentLevel (mkModel [(0, ''a''), (2, ''b''), (1, ''c'')]) 1 = Inr 0"
    by (simp add: mkModel_def)
  have n: "(0::int) \<noteq> - 1" by simp
  have m: "line_match literal_engine (mkModel [(0, ''a''), (2, ''b''), (1, ''c'')]) None (- 1) 1 0 = Inr None"
    by (simp add: line_match_def)
  have t: "p_indent \<lparr>p_indent = 2, p_line = 2, p_marker = None\<rparr> > 0" by simp
  have b: "loop_body literal_engine (mkModel [(0, ''a''), (2, ''b''), (1, ''c'')]) False None (- 1) 1 1
     (\<lparr>p_indent = 2, p_line = 2, p_marker = None\<rparr> #
       [\<lparr>p_indent = 1, p_line = 3, p_marker = None\<rparr>,
       \<lparr>p_indent = - 1, p_line = 4, p_marker = None\<rparr>], []) =
     Inr ([\<lparr>p_indent = 0, p_line = 1, p_marker = None\<rparr>,
           \<lparr>p_indent = - 1, p_line = 4, p_marker = None\<rparr>],
          [\<lparr>startLineNumber = 1, endLineNumber = 3, indent = 0, marker = None\<rparr>])"
    by code_simp
  from plain_line_pop[OF g n m t b] g n m t b show ?thesis by blast
qed

subsection \<open>What every returned range satisfies\<close>

text \<open>
  C2. For every engine, model, \<open>offSide\<close> flag, marker configuration and
  \<open>minimumRangeSize\<close>, the sequence that \<open>computeRanges\<close> returns is sorted in
  ascending order of \<open>startLineNumber\<close>.
\<close>

theorem computeRanges_sorted:
  assumes "computeRanges E model offSide markers minimumRangeSize = Inr ranges"
  shows "sorted (map startLineNumber ranges)"
proof -
  from computeRanges_result_ok[OF assms]
  have "sorted_wrt (>) (map startLineNumber (rev ranges))" by (simp add: result_ok_def)
  then have "sorted_wrt (<) (map startLineNumber ranges)"
    by (simp add: rev_map[symmetric] sorted_wrt_rev)
  then show ?thesis by (rule strict_sorted_imp_sorted)
qed

theorem computeRanges_sorted_witness:
  "computeRanges literal_engine
      (mkModel [(0, ''a''), (1, ''b''), (1, ''c''), (0, ''d''), (2, ''e''), (0, ''f'')])
      False None 1 =
    Inr [\<lparr>startLineNumber = 1, endLineNumber = 3, indent = 0, marker = None\<rparr>,
         \<lparr>startLineNumber = 4, endLineNumber = 5, indent = 0, marker = None\<rparr>] \<and>
   sorted (map startLineNumber
     [\<lparr>startLineNumber = 1, endLineNumber = 3, indent = 0, marker = None\<rparr>,
      \<lparr>startLineNumber = 4, endLineNumber = 5, indent = 0, marker = None\<rparr>])"
proof -
  have run: "computeRanges literal_engine
      (mkModel [(0, ''a''), (1, ''b''), (1, ''c''), (0, ''d''), (2, ''e''), (0, ''f'')])
      False None 1 =
    Inr [\<lparr>startLineNumber = 1, endLineNumber = 3, indent = 0, marker = None\<rparr>,
         \<lparr>startLineNumber = 4, endLineNumber = 5, indent = 0, marker = None\<rparr>]"
    by code_simp
  from computeRanges_sorted[OF run] run show ?thesis by blast
qed

text \<open>
  C3. For every model and every range that \<open>computeRanges\<close> returns,
  \<open>startLineNumber \<le> endLineNumber\<close>, and both line numbers lie between 1 and the
  line count of the model.
\<close>

theorem computeRanges_bounds:
  assumes "computeRanges E model offSide markers minimumRangeSize = Inr ranges"
    and "r \<in> set ranges"
  shows "startLineNumber r \<le> endLineNumber r \<and>
         1 \<le> startLineNumber r \<and> startLineNumber r \<le> getLineCount model \<and>
         1 \<le> endLineNumber r \<and> endLineNumber r \<le> getLineCount model"
  using computeRanges_result_ok[OF assms(1)] assms(2)
  by (fastforce simp: result_ok_def)

theorem computeRanges_bounds_witness:
  "computeRanges literal_engine (mkModel [(0, ''a''), (1, ''b''), (- 1, []), (0, ''d'')])
      True None 0 =
    Inr [\<lparr>startLineNumber = 1, endLineNumber = 2, indent = 0, marker = None\<rparr>] \<and>
   (1::int) \<le> 2 \<and>
   2 \<le> getLineCount (mkModel [(0, ''a''), (1, ''b''), (- 1, []), (0, ''d'')])"
proof -
  have run: "computeRanges literal_engine
      (mkModel [(0, ''a''), (1, ''b''), (- 1, []), (0, ''d'')]) True None 0 =
    Inr [\<lparr>startLineNumber = 1, endLineNumber = 2, indent = 0, marker = None\<rparr>]"
    by code_simp
  from computeRanges_bounds[OF run,
      of "\<lparr>startLineNumber = 1, endLineNumber = 2, indent = 0, marker = None\<rparr>"] run
  show ?thesis by simp
qed

text \<open>
  C4. Every returned range that does not come from markers spans at least
  \<open>minimumRangeSize\<close> lines (\<open>endLineNumber - startLineNumber \<ge> minimumRangeSize\<close>).
  The ranges that come from markers do not depend on the filter: for any other minimum size
  the function returns the same marker ranges, so a marker range with a span below the
  minimum is returned all the same.
\<close>

theorem computeRanges_size_filter:
  assumes "computeRanges E model offSide markers minimumRangeSize = Inr ranges"
  shows "(\<forall>r \<in> set ranges. marker r \<noteq> Some True \<longrightarrow>
            endLineNumber r - startLineNumber r \<ge> minimumRangeSize) \<and>
         (\<forall>size'. \<exists>ranges'. computeRanges E model offSide markers size' = Inr ranges' \<and>
            filter from_marker ranges' = filter from_marker ranges)"
proof -
  have a: "\<forall>r \<in> set ranges. marker r \<noteq> Some True \<longrightarrow>
            endLineNumber r - startLineNumber r \<ge> minimumRangeSize"
    using computeRanges_result_ok[OF assms] by (simp add: result_ok_def)
  have b: "\<exists>ranges'. computeRanges E model offSide markers size' = Inr ranges' \<and>
            filter from_marker ranges' = filter from_marker ranges" for size'
  proof -
    from assms obtain pattern patternIndent stack result where
      mp: "marker_pattern E markers = Inr (pattern, patternIndent)" and
      l: "lines_loop E model offSide pattern patternIndent minimumRangeSize (getLineCount model)
            ([sentinel model], []) = Inr (stack, result)"
      and rs: "ranges = rev result"
      by (auto simp: computeRanges_def split: sum.splits prod.splits)
    from lines_loop_size_indep[OF l, of "([sentinel model], [])" size'] obtain result' where
      l': "lines_loop E model offSide pattern patternIndent size' (getLineCount model)
            ([sentinel model], []) = Inr (stack, result')"
      and f: "filter from_marker result' = filter from_marker result" by auto
    from f have "filter from_marker (rev result') = filter from_marker (rev result)"
      by (simp add: rev_filter[symmetric])
    with mp l' rs show ?thesis by (simp add: computeRanges_def)
  qed
  from a b show ?thesis by blast
qed

theorem computeRanges_size_filter_witness:
  "computeRanges literal_engine
      (mkModel [(0, ''x''), (1, ''a''), (1, ''b''), (1, ''c''), (0, ''#region''), (0, ''#endregion'')])
      False (Some \<lparr>fm_start = ''#region'', fm_end = ''#endregion'', fm_indent = None\<rparr>) 3 =
    Inr [\<lparr>startLineNumber = 1, endLineNumber = 4, indent = 0, marker = None\<rparr>,
         \<lparr>startLineNumber = 5, endLineNumber = 6, indent = 0, marker = Some True\<rparr>] \<and>
   marker \<lparr>startLineNumber = 1, endLineNumber = 4, indent = 0, marker = None\<rparr> \<noteq> Some True \<and>
   endLineNumber \<lparr>startLineNumber = 1, endLineNumber = 4, indent = 0, marker = None\<rparr> -
     startLineNumber \<lparr>startLineNumber = 1, endLineNumber = 4, indent = 0, marker = None\<rparr> \<ge> 3 \<and>
   from_marker \<lparr>startLineNumber = 5, endLineNumber = 6, indent = 0, marker = Some True\<rparr> \<and>
   (6::int) - 5 < 3 \<and>
   (\<forall>size'. \<exists>ranges'.
      computeRanges literal_engine
        (mkModel [(0, ''x''), (1, ''a''), (1, ''b''), (1, ''c''), (0, ''#region''), (0, ''#endregion'')])
        False (Some \<lparr>fm_start = ''#region'', fm_end = ''#endregion'', fm_indent = None\<rparr>) size' =
        Inr ranges' \<and>
      filter from_marker ranges' =
        filter from_marker
          [\<lparr>startLineNumber = 1, endLineNumber = 4, indent = 0, marker = None\<rparr>,
           \<lparr>startLineNumber = 5, endLineNumber = 6, indent = 0, marker = Some True\<rparr>])"
proof -
  have run: "computeRanges literal_engine
      (mkModel [(0, ''x''), (1, ''a''), (1, ''b''), (1, ''c''), (0, ''#region''), (0, ''#endregion'')])
      False (Some \<lparr>fm_start = ''#region'', fm_end = ''#endregion'', fm_indent = None\<rparr>) 3 =
    Inr [\<lparr>startLineNumber = 1, endLineNumber = 4, indent = 0, marker = None\<rparr>,
         \<lparr>startLineNumber = 5, endLineNumber = 6, indent = 0, marker = Some True\<rparr>]"
    by code_simp
  have m: "marker \<lparr>startLineNumber = 1, endLineNumber = 4, indent = 0, marker = None\<rparr> \<noteq> Some True"
    by simp
  have f: "from_marker \<lparr>startLineNumber = 5, endLineNumber = 6, indent = 0, marker = Some True\<rparr>"
    by (simp add: from_marker_def)
  have s: "(6::int) - 5 < 3" by simp
  from computeRanges_size_filter[OF run] have
    "endLineNumber \<lparr>startLineNumber = 1, endLineNumber = 4, indent = 0, marker = None\<rparr> -
     startLineNumber \<lparr>startLineNumber = 1, endLineNumber = 4, indent = 0, marker = None\<rparr> \<ge> 3"
    using m by (meson list.set_intros(1))
  with computeRanges_size_filter[OF run] run m f s show ?thesis by blast
qed

subsection \<open>Blank lines\<close>



subsection \<open>Two runs\<close>

text \<open>
  C6, as stated: on five lines with the indent levels 0, 1, 2, 1, 0, without \<open>offSide\<close>,
  without markers and with \<open>minimumRangeSize = 1\<close>, the result would be the range of
  lines 2 to 3 followed by the range of lines 1 to 4. The function returns them the
  other way round.
\<close>

theorem computeRanges_nested_order_counterexample:
  "computeRanges literal_engine
      (mkModel [(0, ''function f() {''), (1, ''if (x) {''), (2, ''return 1;''), (1, ''}''), (0, ''}'')])
      False None 1 \<noteq>
    Inr [\<lparr>startLineNumber = 2, endLineNumber = 3, indent = 1, marker = None\<rparr>,
         \<lparr>startLineNumber = 1, endLineNumber = 4, indent = 0, marker = None\<rparr>]"
  by code_simp

text \<open>
  C6, amended: on that input \<open>computeRanges\<close> returns exactly two ranges, in ascending
  order of their start: lines 1 to 4 with indent 0, then lines 2 to 3 with indent 1.
\<close>

theorem computeRanges_nested:
  "computeRanges literal_engine
      (mkModel [(0, ''function f() {''), (1, ''if (x) {''), (2, ''return 1;''), (1, ''}''), (0, ''}'')])
      False None 1 =
    Inr [\<lparr>startLineNumber = 1, endLineNumber = 4, indent = 0, marker = None\<rparr>,
         \<lparr>startLineNumber = 2, endLineNumber = 3, indent = 1, marker = None\<rparr>]"
  by code_simp

text \<open>
  C7. For the three lines \<open>#region\<close>, \<open>code\<close>, \<open>#endregion\<close>, all at indent 0,
  with the markers \<open>#region\<close> and \<open>#endregion\<close> and no indent constraint,
  \<open>computeRanges\<close> returns exactly one range, from line 1 to line 3, with the marker
  flag set; the line of the end marker is the last line of the range.
\<close>

theorem computeRanges_region_markers:
  "computeRanges literal_engine
      (mkModel [(0, ''#region''), (0, ''code''), (0, ''#endregion'')])
      False (Some \<lparr>fm_start = ''#region'', fm_end = ''#endregion'', fm_indent = None\<rparr>) 1 =
    Inr [\<lparr>startLineNumber = 1, endLineNumber = 3, indent = 0, marker = Some True\<rparr>]"
  by code_simp

subsection \<open>Totality and the stack\<close>

text \<open>
  C8, as stated: \<open>computeRanges\<close> would be total over any well-formed model and return
  the empty sequence when the line count is 0. \<open>new RegExp\<close> is called inside
  \<open>computeRanges\<close> (source line 49), before the loop: with the markers \<open>(\<close> and
  \<open>x\<close> the pattern text is \<open>(()|(?:x)\<close>, whose first group is not closed, and the
  call fails with a \<open>SyntaxError\<close> on the empty model, which is well formed and has line
  count 0.
\<close>

theorem computeRanges_malformed_markers_counterexample:
  "wf_model (mkModel []) \<and> getLineCount (mkModel []) = 0 \<and>
   computeRanges group_engine (mkModel []) False
     (Some \<lparr>fm_start = ''('', fm_end = ''x'', fm_indent = None\<rparr>) 1 = Inl SyntaxError"
  by code_simp

text \<open>
  C8, amended: on a model that keeps its contract, and with no markers or with markers
  whose pattern \<open>new RegExp\<close> accepts, \<open>computeRanges\<close> returns a sequence of
  ranges: it asks the model for lines between 1 and the line count only, and never reads the
  top of an empty stack. Under the same condition the sequence is empty when the line count
  is 0.
\<close>

theorem computeRanges_total:
  assumes "wf_model model" and "markers_compile E markers"
  shows "(\<exists>ranges. computeRanges E model offSide markers minimumRangeSize = Inr ranges) \<and>
         (getLineCount model = 0 \<longrightarrow>
            computeRanges E model offSide markers minimumRangeSize = Inr [])"
proof -
  from assms(2) obtain pattern patternIndent where
    mp: "marker_pattern E markers = Inr (pattern, patternIndent)"
    by (auto simp: marker_pattern_def markers_compile_def split: option.splits)
  have "base_ok (fst ([sentinel model], []))" by (simp add: base_ok_def sentinel_def)
  from lines_loop_total[OF assms(1) order_refl this]
  obtain stack res where "lines_loop E model offSide pattern patternIndent minimumRangeSize
      (getLineCount model) ([sentinel model], []) = Inr (stack, res)" by blast
  with mp have "computeRanges E model offSide markers minimumRangeSize = Inr (rev res)"
    by (simp add: computeRanges_def)
  moreover have "getLineCount model = 0 \<Longrightarrow>
      computeRanges E model offSide markers minimumRangeSize = Inr []"
    using mp by (simp add: computeRanges_def lines_loop.simps)
  ultimately show ?thesis by blast
qed

theorem computeRanges_total_witness:
  "wf_model (mkModel [(0, ''#region''), (1, ''a''), (- 1, []), (1, ''b''), (0, ''#endregion''),
                      (0, ''c''), (1, ''d'')]) \<and>
   markers_compile group_engine
     (Some \<lparr>fm_start = ''#region'', fm_end = ''#endregion'', fm_indent = Some 0\<rparr>) \<and>
   (\<exists>ranges.
      computeRanges group_engine
        (mkModel [(0, ''#region''), (1, ''a''), (- 1, []), (1, ''b''), (0, ''#endregion''),
                  (0, ''c''), (1, ''d'')])
        True (Some \<lparr>fm_start = ''#region'', fm_end = ''#endregion'', fm_indent = Some 0\<rparr>) 1 =
      Inr ranges) \<and>
   computeRanges group_engine
     (mkModel [(0, ''#region''), (1, ''a''), (- 1, []), (1, ''b''), (0, ''#endregion''),
               (0, ''c''), (1, ''d'')])
     True (Some \<lparr>fm_start = ''#region'', fm_end = ''#endregion'', fm_indent = Some 0\<rparr>) 1 =
     Inr [\<lparr>startLineNumber = 1, endLineNumber = 5, indent = 0, marker = Some True\<rparr>,
          \<lparr>startLineNumber = 6, endLineNumber = 7, indent = 0, marker = None\<rparr>] \<and>
   wf_model (mkModel []) \<and> getLineCount (mkModel []) = 0 \<and>
   computeRanges group_engine (mkModel []) True
     (Some \<lparr>fm_start = ''#region'', fm_end = ''#endregion'', fm_indent = Some 0\<rparr>) 1 = Inr []"
proof -
  have w: "wf_model (mkModel [(0, ''#region''), (1, ''a''), (- 1, []), (1, ''b''), (0, ''#endregion''),
                      (0, ''c''), (1, ''d'')])"
    by code_simp
  have w0: "wf_model (mkModel [])" by code_simp
  have c: "markers_compile group_engine
     (Some \<lparr>fm_start = ''#region'', fm_end = ''#endregion'', fm_indent = Some 0\<rparr>)"
    by code_simp
  have z: "getLineCount (mkModel []) = 0" by (simp add: mkModel_def)
  have r: "computeRanges group_engine
     (mkModel [(0, ''#region''), (1, ''a''), (- 1, []), (1, ''b''), (0, ''#endregion''),
               (0, ''c''), (1, ''d'')])
     True (Some \<lparr>fm_start = ''#region'', fm_end = ''#endregion'', fm_indent = Some 0\<rparr>) 1 =
     Inr [\<lparr>startLineNumber = 1, endLineNumber = 5, indent = 0, marker = Some True\<rparr>,
          \<lparr>startLineNumber = 6, endLineNumber = 7, indent = 0, marker = None\<rparr>]"
    by code_simp
  from computeRanges_total[OF w c, of True 1] computeRanges_total[OF w0 c, of True 1] w w0 c z r
  show ?thesis by blast
qed

text \<open>
  C9. On a model that keeps its contract, after any number of iterations of the loop the
  stack is not empty and its bottom is the region with indent -1 and no marker that was
  pushed before the loop: no iteration fails, and the failure of an iteration is the only
  way in which the top of an empty stack is read, inside the two pop loops as well as
  outside. The run of the loop is the state after \<open>lineCount\<close> iterations. Both pop
  loops stop as soon as the region that a pop uncovers has a negative indent (the loop of
  a plain line runs with the indent of that line, which is at least 0).
\<close>

theorem stack_never_empty:
  assumes "wf_model model" and "k \<le> nat (getLineCount model)"
  shows "(\<exists>stack result.
            loop_prefix E model offSide pattern patternIndent minimumRangeSize k = Inr (stack, result) \<and>
            stack \<noteq> [] \<and> p_indent (last stack) = - 1 \<and> p_marker (last stack) = None) \<and>
         lines_loop E model offSide pattern patternIndent minimumRangeSize (getLineCount model)
            ([sentinel model], []) =
         loop_prefix E model offSide pattern patternIndent minimumRangeSize (nat (getLineCount model)) \<and>
         (p_indent q < 0 \<longrightarrow> discard_until_marker (p # q # qs) = Inr (q # qs)) \<and>
         (p_indent q < 0 \<longrightarrow> 0 \<le> ind \<longrightarrow> discard_larger_indent ind (p # q # qs) = Inr (q # qs))"
proof -
  from loop_prefix_base[OF assms] have
    "\<exists>stack result.
            loop_prefix E model offSide pattern patternIndent minimumRangeSize k = Inr (stack, result) \<and>
            stack \<noteq> [] \<and> p_indent (last stack) = - 1 \<and> p_marker (last stack) = None"
    by (simp add: base_ok_def)
  moreover have "lines_loop E model offSide pattern patternIndent minimumRangeSize (getLineCount model)
            ([sentinel model], []) =
         loop_prefix E model offSide pattern patternIndent minimumRangeSize (nat (getLineCount model))"
    using lines_loop_prefix[of E model offSide pattern patternIndent minimumRangeSize 0
        "([sentinel model], [])"] by simp
  moreover have "p_indent q < 0 \<longrightarrow> discard_until_marker (p # q # qs) = Inr (q # qs)"
    by simp
  moreover have "p_indent q < 0 \<longrightarrow> 0 \<le> ind \<longrightarrow> discard_larger_indent ind (p # q # qs) = Inr (q # qs)"
    by simp
  ultimately show ?thesis by blast
qed

theorem stack_never_empty_witness:
  "wf_model (mkModel [(0, ''#region''), (1, ''a''), (2, ''b''), (0, ''#endregion'')]) \<and>
   (3::nat) \<le> nat (getLineCount (mkModel [(0, ''#region''), (1, ''a''), (2, ''b''), (0, ''#endregion'')])) \<and>
   loop_prefix literal_engine (mkModel [(0, ''#region''), (1, ''a''), (2, ''b''), (0, ''#endregion'')])
      False (Some (RegExp ''#region'' ''#endregion'')) (- 1) 1 3 =
     Inr ([\<lparr>p_indent = 1, p_line = 2, p_marker = None\<rparr>,
           \<lparr>p_indent = - 2, p_line = 4, p_marker = Some (RegExp ''#region'' ''#endregion'')\<rparr>,
           \<lparr>p_indent = - 1, p_line = 5, p_marker = None\<rparr>],
          [\<lparr>startLineNumber = 2, endLineNumber = 3, indent = 1, marker = None\<rparr>]) \<and>
   (\<exists>stack result.
      loop_prefix literal_engine (mkModel [(0, ''#region''), (1, ''a''), (2, ''b''), (0, ''#endregion'')])
        False (Some (RegExp ''#region'' ''#endregion'')) (- 1) 1 3 = Inr (stack, result) \<and>
      stack \<noteq> [] \<and> p_indent (last stack) = - 1 \<and> p_marker (last stack) = None) \<and>
   p_indent \<lparr>p_indent = - 1, p_line = 5, p_marker = None\<rparr> < 0 \<and> (0::int) \<le> 0 \<and>
   discard_until_marker
     [\<lparr>p_indent = 1, p_line = 2, p_marker = None\<rparr>, \<lparr>p_indent = - 1, p_line = 5, p_marker = None\<rparr>] =
     Inr [\<lparr>p_indent = - 1, p_line = 5, p_marker = None\<rparr>] \<and>
   discard_larger_indent 0
     [\<lparr>p_indent = 1, p_line = 2, p_marker = None\<rparr>, \<lparr>p_indent = - 1, p_line = 5, p_marker = None\<rparr>] =
     Inr [\<lparr>p_indent = - 1, p_line = 5, p_marker = None\<rparr>]"
proof -
  have w: "wf_model (mkModel [(0, ''#region''), (1, ''a''), (2, ''b''), (0, ''#endregion'')])"
    by code_simp
  have k: "(3::nat) \<le> nat (getLineCount (mkModel [(0, ''#region''), (1, ''a''), (2, ''b''), (0, ''#endregion'')]))"
    by (simp add: mkModel_def)
  have r: "loop_prefix literal_engine (mkModel [(0, ''#region''), (1, ''a''), (2, ''b''), (0, ''#endregion'')])
      False (Some (RegExp ''#region'' ''#endregion'')) (- 1) 1 3 =
     Inr ([\<lparr>p_indent = 1, p_line = 2, p_marker = None\<rparr>,
           \<lparr>p_indent = - 2, p_line = 4, p_marker = Some (RegExp ''#region'' ''#endregion'')\<rparr>,
           \<lparr>p_indent = - 1, p_line = 5, p_marker = None\<rparr>],
          [\<lparr>startLineNumber = 2, endLineNumber = 3, indent = 1, marker = None\<rparr>])"
    by code_simp
  have n: "p_indent \<lparr>p_indent = - 1, p_line = 5, p_marker = None\<rparr> < 0" "(0::int) \<le> 0"
    by simp_all
  from stack_never_empty[OF w k, of literal_engine False "Some (RegExp ''#region'' ''#endregion'')"
      "- 1" 1 "\<lparr>p_indent = - 1, p_line = 5, p_marker = None\<rparr>"
      "\<lparr>p_indent = 1, p_line = 2, p_marker = None\<rparr>" "[]" 0]
    w k r n show ?thesis by blast
qed

subsection \<open>Cloning\<close>

text \<open>
  C10. For every array of ranges, \<open>deepCloneArr\<close> returns an array of the same length
  whose elements have the same \<open>startLineNumber\<close>, \<open>endLineNumber\<close> and
  \<open>indent\<close>, and whose \<open>marker\<close> field is unset: a range with \<open>marker = true\<close>
  loses its flag.
\<close>

theorem deepCloneArr_drops_marker:
  "length (deepCloneArr indentRanges) = length indentRanges \<and>
   (\<forall>i < length indentRanges.
      startLineNumber (deepCloneArr indentRanges ! i) = startLineNumber (indentRanges ! i) \<and>
      endLineNumber (deepCloneArr indentRanges ! i) = endLineNumber (indentRanges ! i) \<and>
      indent (deepCloneArr indentRanges ! i) = indent (indentRanges ! i) \<and>
      marker (deepCloneArr indentRanges ! i) = None)"
  by (simp add: deepCloneArr_map)

theorem deepCloneArr_drops_marker_witness:
  "deepCloneArr [\<lparr>startLineNumber = 1, endLineNumber = 3, indent = 0, marker = Some True\<rparr>,
                 \<lparr>startLineNumber = 4, endLineNumber = 6, indent = 2, marker = None\<rparr>] =
     [\<lparr>startLineNumber = 1, endLineNumber = 3, indent = 0, marker = None\<rparr>,
      \<lparr>startLineNumber = 4, endLineNumber = 6, indent = 2, marker = None\<rparr>] \<and>
   marker (deepCloneArr [\<lparr>startLineNumber = 1, endLineNumber = 3, indent = 0, marker = Some True\<rparr>,
                 \<lparr>startLineNumber = 4, endLineNumber = 6, indent = 2, marker = None\<rparr>] ! 0) = None"
proof -
  have "deepCloneArr [\<lparr>startLineNumber = 1, endLineNumber = 3, indent = 0, marker = Some True\<rparr>,
                 \<lparr>startLineNumber = 4, endLineNumber = 6, indent = 2, marker = None\<rparr>] =
     [\<lparr>startLineNumber = 1, endLineNumber = 3, indent = 0, marker = None\<rparr>,
      \<lparr>startLineNumber = 4, endLineNumber = 6, indent = 2, marker = None\<rparr>]"
    by code_simp
  moreover have "(0::nat) < length [\<lparr>startLineNumber = 1, endLineNumber = 3, indent = 0, marker = Some True\<rparr>,
                 \<lparr>startLineNumber = 4, endLineNumber = 6, indent = 2, marker = None\<rparr>]" by simp
  ultimately show ?thesis
    using deepCloneArr_drops_marker[of "[\<lparr>startLineNumber = 1, endLineNumber = 3, indent = 0, marker = Some True\<rparr>,
                 \<lparr>startLineNumber = 4, endLineNumber = 6, indent = 2, marker = None\<rparr>]"]
    by blast
qed

end
